theory Spec2Isabelle
  imports Main "HOL-Library.Word" "HOL-Library.AList"
begin

section \<open>Data model\<close>

text \<open>
  A value of type \<open>T*\<close> is an integer counted in elements of \<open>T\<close>: \<open>p + n\<close> is the
  address \<open>n\<close> elements after \<open>p\<close>, as in C++ pointer arithmetic, and \<open>0\<close> is
  \<open>nullptr\<close>. An object of class \<open>Pointer\<close> is named by the location it lives at.
  C++ \<open>unsigned\<close> is a 32-bit word and C++ \<open>int\<close> its two's complement reading.
\<close>

type_synonym address = int
type_synonym unsigned = "32 word"
type_synonym hid = nat

definition nullptr :: address where
  "nullptr = 0"

text \<open>\<open>gc_details.h\<close>: one element of the garbage collection list.\<close>

record PtrDetails =
  refCount :: unsigned
  memPtr :: address
  isArray :: bool
  arraySize :: unsigned

text \<open>
  The constructor of \<open>PtrDetails\<close>. It never assigns \<open>refCount\<close> before incrementing
  it, so the value it increments is whatever the storage held: \<open>indet\<close>.
\<close>

definition PtrDetails_ctor :: "unsigned \<Rightarrow> address \<Rightarrow> unsigned \<Rightarrow> PtrDetails" where
  "PtrDetails_ctor indet mPtr arrSize =
     \<lparr>refCount = indet + 1, memPtr = mPtr, isArray = (arrSize = 0), arraySize = arrSize\<rparr>"

text \<open>\<open>operator==\<close> on \<open>PtrDetails\<close>: same allocated memory.\<close>

definition PtrDetails_eq :: "PtrDetails \<Rightarrow> PtrDetails \<Rightarrow> bool" where
  "PtrDetails_eq ob1 ob2 = (memPtr ob1 = memPtr ob2)"

text \<open>The non-static data members of \<open>Pointer<T, size>\<close>.\<close>

record Pointer =
  addr :: address
  ptr_isArray :: bool
  ptr_arraySize :: unsigned

text \<open>
  Modelled from the spec: the class \<open>Iter<T>\<close> of \<open>gc_iterator.h\<close>, which is not among
  the sources. The spec gives it three addresses, the cursor and the bounds of the
  half-open range, and the calls in \<open>begin()\<close> and \<open>end()\<close> pass them in this order.
\<close>

record Iter =
  current :: address
  range_begin :: address
  range_end :: address

definition Iter_ctor :: "address \<Rightarrow> address \<Rightarrow> address \<Rightarrow> Iter" where
  "Iter_ctor p first_elem last_elem =
     \<lparr>current = p, range_begin = first_elem, range_end = last_elem\<rparr>"

text \<open>
  The state of a program using one instantiation \<open>Pointer<T, size>\<close>: the two static
  members, the number of times \<open>atexit(shutdown)\<close> has been called, the log of the
  \<open>delete\<close> (flag \<open>False\<close>) and \<open>delete []\<close> (flag \<open>True\<close>) expressions evaluated so
  far, and the \<open>Pointer\<close> objects alive.
\<close>

record state =
  refContainer :: "PtrDetails list"
  first :: bool
  atexit_calls :: nat
  deleted :: "(address \<times> bool) list"
  objs :: "(hid \<times> Pointer) list"

definition init_state :: state where
  "init_state = \<lparr>refContainer = [], first = True, atexit_calls = 0, deleted = [], objs = []\<rparr>"

text \<open>
  Dereferencing \<open>refContainer.end()\<close> is undefined behaviour; the model stops there.
  \<open>NoSuchObject\<close> is a call on a location that holds no \<open>Pointer\<close>, which the source
  cannot express.
\<close>

datatype error = EndIteratorDeref | NoSuchObject

section \<open>Operations\<close>

text \<open>\<open>findPtrInfo\<close>: the position of the first element for \<open>ptr\<close>; \<open>None\<close> is \<open>end()\<close>.\<close>

fun findPtrInfo :: "address \<Rightarrow> PtrDetails list \<Rightarrow> nat option" where
  "findPtrInfo ptr [] = None"
| "findPtrInfo ptr (d # ds) =
     (if memPtr d = ptr then Some 0 else map_option Suc (findPtrInfo ptr ds))"

text \<open>\<open>p->refCount = f (p->refCount)\<close> through an iterator \<open>p\<close> that is not \<open>end()\<close>.\<close>

definition refCount_at :: "(unsigned \<Rightarrow> unsigned) \<Rightarrow> nat \<Rightarrow> PtrDetails list \<Rightarrow> PtrDetails list" where
  "refCount_at f p rc = rc[p := (rc ! p)\<lparr>refCount := f (refCount (rc ! p))\<rparr>]"

text \<open>\<open>Pointer(T* t)\<close>, constructing the object at \<open>this\<close>.\<close>

definition Pointer_ctor :: "int \<Rightarrow> unsigned \<Rightarrow> hid \<Rightarrow> address \<Rightarrow> state \<Rightarrow> state" where
  "Pointer_ctor tsize indet this t s =
     (let s1 = (if first s then s\<lparr>atexit_calls := Suc (atexit_calls s)\<rparr> else s);
          s2 = s1\<lparr>first := False\<rparr>;
          arrSz = (word_of_int tsize :: unsigned);
          isArr = (if arrSz > 0 then True else False);
          ptrDetails = (PtrDetails_ctor indet t 0)
                         \<lparr>refCount := 1, isArray := isArr, arraySize := arrSz\<rparr>
      in s2\<lparr>refContainer := refContainer s2 @ [ptrDetails],
            objs := AList.update this
                      \<lparr>addr = t, ptr_isArray = isArr, ptr_arraySize = arrSz\<rparr> (objs s2)\<rparr>)"

text \<open>\<open>Pointer(const Pointer &obj)\<close>.\<close>

definition Pointer_copy :: "hid \<Rightarrow> hid \<Rightarrow> state \<Rightarrow> error + state" where
  "Pointer_copy this obj s =
     (case map_of (objs s) obj of
        None \<Rightarrow> Inl NoSuchObject
      | Some ob \<Rightarrow>
          (case findPtrInfo (addr ob) (refContainer s) of
             None \<Rightarrow> Inl EndIteratorDeref
           | Some p \<Rightarrow>
               Inr (s\<lparr>refContainer := refCount_at (\<lambda>c. c + 1) p (refContainer s),
                      objs := AList.update this
                                \<lparr>addr = addr ob, ptr_isArray = ptr_isArray ob,
                                 ptr_arraySize = ptr_arraySize ob\<rparr> (objs s)\<rparr>)))"

text \<open>
  \<open>collect()\<close>. The \<open>for\<close> loop stops at the first element whose count is not positive;
  \<open>refContainer.remove( *p)\<close> then erases every element equal to it under
  \<open>operator==\<close>, that is every element for the same memory. The element is read once
  more after the removal (\<open>p->memPtr\<close>, \<open>p->isArray\<close>); the model takes these reads to
  give the values the element had. After the \<open>break\<close> the iterator differs from
  \<open>end()\<close>, so the \<open>do\<close> loop scans again from the start.
\<close>

fun find_unreferenced :: "PtrDetails list \<Rightarrow> PtrDetails option" where
  "find_unreferenced [] = None"
| "find_unreferenced (d # ds) =
     (if refCount d > 0 then find_unreferenced ds else Some d)"

definition list_remove :: "PtrDetails \<Rightarrow> PtrDetails list \<Rightarrow> PtrDetails list" where
  "list_remove v xs = filter (\<lambda>x. \<not> PtrDetails_eq x v) xs"

lemma find_unreferenced_mem:
  "find_unreferenced xs = Some d \<Longrightarrow> d \<in> set xs \<and> refCount d = 0"
  by (induction xs) (auto split: if_splits simp: word_greater_zero_iff)

lemma list_remove_shorter:
  "d \<in> set xs \<Longrightarrow> length (list_remove d xs) < length xs"
  unfolding list_remove_def PtrDetails_eq_def
  by (induction xs) (auto simp: less_Suc_eq_le)

function collect_loop :: "bool \<Rightarrow> state \<Rightarrow> bool \<times> state" where
  "collect_loop memFreed s =
     (case find_unreferenced (refContainer s) of
        None \<Rightarrow> (memFreed, s)
      | Some d \<Rightarrow>
          collect_loop True
            (s\<lparr>refContainer := list_remove d (refContainer s),
               deleted := (if memPtr d \<noteq> nullptr
                           then deleted s @ [(memPtr d, isArray d)] else deleted s)\<rparr>))"
  by pat_completeness auto
termination
  by (relation "measure (\<lambda>(memFreed, s). length (refContainer s))")
     (auto dest!: find_unreferenced_mem intro: list_remove_shorter)

definition collect :: "state \<Rightarrow> bool \<times> state" where
  "collect s = collect_loop False s"

text \<open>\<open>~Pointer()\<close>: after it the object at \<open>this\<close> is gone.\<close>

definition Pointer_dtor :: "hid \<Rightarrow> state \<Rightarrow> error + state" where
  "Pointer_dtor this s =
     (case map_of (objs s) this of
        None \<Rightarrow> Inl NoSuchObject
      | Some ob \<Rightarrow>
          (case findPtrInfo (addr ob) (refContainer s) of
             None \<Rightarrow> Inl EndIteratorDeref
           | Some p \<Rightarrow>
               (let rc = (if refCount (refContainer s ! p) \<noteq> 0
                          then refCount_at (\<lambda>c. c - 1) p (refContainer s)
                          else refContainer s);
                    s' = snd (collect (s\<lparr>refContainer := rc\<rparr>))
                in Inr (s'\<lparr>objs := AList.delete this (objs s')\<rparr>))))"

text \<open>
  \<open>Pointer()\<close>. Its body is the expression statement \<open>Pointer(nullptr);\<close>, which
  constructs a temporary at \<open>tmp\<close> and destroys it at the end of the statement. No
  member of the object at \<open>this\<close> is assigned: it keeps the contents \<open>garbage\<close> its
  storage had.
\<close>

definition Pointer_default :: "int \<Rightarrow> unsigned \<Rightarrow> Pointer \<Rightarrow> hid \<Rightarrow> hid \<Rightarrow> state \<Rightarrow> error + state" where
  "Pointer_default tsize indet garbage tmp this s =
     Pointer_dtor tmp
       (Pointer_ctor tsize indet tmp nullptr (s\<lparr>objs := AList.update this garbage (objs s)\<rparr>))"

text \<open>\<open>T* operator=(T* t)\<close>: the result is the returned address and the new state.\<close>

definition assign_ptr :: "int \<Rightarrow> unsigned \<Rightarrow> hid \<Rightarrow> address \<Rightarrow> state \<Rightarrow> error + (address \<times> state)" where
  "assign_ptr tsize indet this t s =
     (case map_of (objs s) this of
        None \<Rightarrow> Inl NoSuchObject
      | Some ob \<Rightarrow>
          (case findPtrInfo (addr ob) (refContainer s) of
             None \<Rightarrow> Inl EndIteratorDeref
           | Some p \<Rightarrow>
               (let rc = refCount_at (\<lambda>c. c - 1) p (refContainer s);
                    rc' = (case findPtrInfo t rc of
                             Some q \<Rightarrow> refCount_at (\<lambda>c. c + 1) q rc
                           | None \<Rightarrow> rc @ [PtrDetails_ctor indet t (word_of_int tsize)])
                in Inr (t, s\<lparr>refContainer := rc',
                             objs := AList.update this (ob\<lparr>addr := t\<rparr>) (objs s)\<rparr>))))"

text \<open>
  \<open>Pointer &operator=(Pointer &rv)\<close>: the result is the object the returned reference
  designates and the new state.
\<close>

definition assign_Pointer :: "hid \<Rightarrow> hid \<Rightarrow> state \<Rightarrow> error + (hid \<times> state)" where
  "assign_Pointer this rv s =
     (case map_of (objs s) this of
        None \<Rightarrow> Inl NoSuchObject
      | Some ob \<Rightarrow>
          (case map_of (objs s) rv of
             None \<Rightarrow> Inl NoSuchObject
           | Some rvo \<Rightarrow>
               (case findPtrInfo (addr ob) (refContainer s) of
                  None \<Rightarrow> Inl EndIteratorDeref
                | Some p \<Rightarrow>
                    (let rc = refCount_at (\<lambda>c. c - 1) p (refContainer s)
                     in case findPtrInfo (addr rvo) rc of
                          None \<Rightarrow> Inl EndIteratorDeref
                        | Some q \<Rightarrow>
                            Inr (rv, s\<lparr>refContainer := refCount_at (\<lambda>c. c + 1) q rc,
                                       objs := AList.update this (ob\<lparr>addr := addr rvo\<rparr>)
                                                 (objs s)\<rparr>)))))"

text \<open>\<open>begin()\<close> and \<open>end()\<close>; \<open>int _size = arraySize\<close> reads the word as an \<open>int\<close>.\<close>

definition Pointer_begin :: "Pointer \<Rightarrow> Iter" where
  "Pointer_begin ob =
     (let n_size = (if ptr_isArray ob then sint (ptr_arraySize ob) else 0)
      in Iter_ctor (addr ob) (addr ob) (addr ob + n_size))"

definition Pointer_end :: "Pointer \<Rightarrow> Iter" where
  "Pointer_end ob =
     (let n_size = (if ptr_isArray ob then sint (ptr_arraySize ob) else 0)
      in Iter_ctor (addr ob + n_size) (addr ob) (addr ob + n_size))"

text \<open>\<open>refContainerSize()\<close>: \<open>refContainer.size()\<close> converted to \<open>int\<close>.\<close>

definition refContainerSize :: "state \<Rightarrow> int" where
  "refContainerSize s = sint (word_of_nat (length (refContainer s)) :: 32 word)"

text \<open>\<open>shutdown()\<close>.\<close>

definition shutdown :: "state \<Rightarrow> state" where
  "shutdown s =
     (if refContainerSize s = 0 then s
      else snd (collect (s\<lparr>refContainer := map (\<lambda>d. d\<lparr>refCount := 0\<rparr>) (refContainer s)\<rparr>)))"

section \<open>Programs\<close>

text \<open>
  A program over one instantiation \<open>Pointer<T, size>\<close> is a sequence of calls. The
  template argument \<open>tsize\<close> is the same for all of them. Each construction and each
  assignment of a raw address says which indeterminate value the \<open>PtrDetails\<close>
  constructor finds; a default construction also names the contents of the storage it
  constructs in and the location of its temporary.
\<close>

datatype op =
    Construct unsigned hid address
  | DefaultConstruct unsigned Pointer hid hid
  | CopyConstruct hid hid
  | Destroy hid
  | AssignPtr unsigned hid address
  | AssignPointer hid hid
  | Collect
  | Shutdown

fun step :: "int \<Rightarrow> op \<Rightarrow> state \<Rightarrow> error + state" where
  "step tsize (Construct indet this t) s = Inr (Pointer_ctor tsize indet this t s)"
| "step tsize (DefaultConstruct indet garbage tmp this) s =
     Pointer_default tsize indet garbage tmp this s"
| "step tsize (CopyConstruct this obj) s = Pointer_copy this obj s"
| "step tsize (Destroy this) s = Pointer_dtor this s"
| "step tsize (AssignPtr indet this t) s =
     (case assign_ptr tsize indet this t s of Inl e \<Rightarrow> Inl e | Inr (r, s') \<Rightarrow> Inr s')"
| "step tsize (AssignPointer this rv) s =
     (case assign_Pointer this rv s of Inl e \<Rightarrow> Inl e | Inr (r, s') \<Rightarrow> Inr s')"
| "step tsize Collect s = Inr (snd (collect s))"
| "step tsize Shutdown s = Inr (shutdown s)"

fun run :: "int \<Rightarrow> op list \<Rightarrow> state \<Rightarrow> error + state" where
  "run tsize [] s = Inr s"
| "run tsize (x # xs) s =
     (case step tsize x s of Inl e \<Rightarrow> Inl e | Inr s' \<Rightarrow> run tsize xs s')"

text \<open>The number of live handles whose address is \<open>a\<close>.\<close>

definition handles_at :: "address \<Rightarrow> state \<Rightarrow> nat" where
  "handles_at a s = length (filter (\<lambda>(h, ob). addr ob = a) (objs s))"

text \<open>The reference count of the registry entry \<open>findPtrInfo\<close> gives for \<open>a\<close>.\<close>

definition tracked_count :: "address \<Rightarrow> state \<Rightarrow> unsigned option" where
  "tracked_count a s =
     map_option (\<lambda>p. refCount (refContainer s ! p)) (findPtrInfo a (refContainer s))"

text \<open>
  The raw address a call receives from the program, if any. A program hands over live
  memory when no such address has been deallocated before the call that receives it:
  an allocation is identified with its address, \<open>new\<close> returning each address once.
\<close>

fun raw_address :: "op \<Rightarrow> address option" where
  "raw_address (Construct indet this t) = Some t"
| "raw_address (AssignPtr indet this t) = Some t"
| "raw_address x = None"

fun hands_over_live_memory :: "int \<Rightarrow> op list \<Rightarrow> state \<Rightarrow> bool" where
  "hands_over_live_memory tsize [] s = True"
| "hands_over_live_memory tsize (x # xs) s =
     ((case raw_address x of None \<Rightarrow> True | Some t \<Rightarrow> t \<notin> fst ` set (deleted s))
      \<and> (case step tsize x s of Inl e \<Rightarrow> True
                              | Inr s' \<Rightarrow> hands_over_live_memory tsize xs s'))"

text \<open>
  The deallocation log is consistent when no address occurs twice in it, \<open>nullptr\<close>
  does not occur in it, and no registered address occurs in it.
\<close>

definition log_consistent :: "state \<Rightarrow> bool" where
  "log_consistent s \<longleftrightarrow>
     distinct (map fst (deleted s)) \<and> nullptr \<notin> fst ` set (deleted s)
     \<and> (\<forall>d\<in>set (refContainer s). memPtr d \<notin> fst ` set (deleted s))"

section \<open>Facts about the operations\<close>

declare collect_loop.simps [simp del]

subsection \<open>The collector\<close>

lemma find_unreferenced_None_iff:
  "find_unreferenced xs = None \<longleftrightarrow> (\<forall>d\<in>set xs. refCount d \<noteq> 0)"
  by (induction xs) (auto simp: word_greater_zero_iff)

lemma collect_loop_no_garbage:
  "\<forall>d\<in>set (refContainer s). refCount d \<noteq> 0 \<Longrightarrow> collect_loop b s = (b, s)"
  by (subst collect_loop.simps) (simp add: find_unreferenced_None_iff [THEN iffD2])

lemma collect_loop_frame:
  "collect_loop b s = (b', s') \<Longrightarrow>
     objs s' = objs s \<and> first s' = first s \<and> atexit_calls s' = atexit_calls s"
proof (induction b s arbitrary: b' s' rule: collect_loop.induct)
  case (1 memFreed s)
  show ?case
  proof (cases "find_unreferenced (refContainer s)")
    case None
    with "1.prems" show ?thesis by (subst (asm) collect_loop.simps) simp
  next
    case (Some d)
    with "1.prems" "1.IH" [OF Some] show ?thesis
      by (subst (asm) collect_loop.simps) simp
  qed
qed

lemma collect_loop_clean:
  "collect_loop b s = (b', s') \<Longrightarrow> \<forall>d\<in>set (refContainer s'). refCount d \<noteq> 0"
proof (induction b s arbitrary: b' s' rule: collect_loop.induct)
  case (1 memFreed s)
  show ?case
  proof (cases "find_unreferenced (refContainer s)")
    case None
    with "1.prems" show ?thesis
      by (subst (asm) collect_loop.simps) (simp add: find_unreferenced_None_iff)
  next
    case (Some d)
    with "1.prems" "1.IH" [OF Some] show ?thesis
      by (subst (asm) collect_loop.simps) simp
  qed
qed

lemma list_remove_subset: "set (list_remove d xs) \<subseteq> set xs"
  by (auto simp: list_remove_def)

lemma collect_loop_subset:
  "collect_loop b s = (b', s') \<Longrightarrow> set (refContainer s') \<subseteq> set (refContainer s)"
proof (induction b s arbitrary: b' s' rule: collect_loop.induct)
  case (1 memFreed s)
  show ?case
  proof (cases "find_unreferenced (refContainer s)")
    case None
    with "1.prems" show ?thesis by (subst (asm) collect_loop.simps) simp
  next
    case (Some d)
    with "1.prems" "1.IH" [OF Some] list_remove_subset [of d "refContainer s"] show ?thesis
      by (subst (asm) collect_loop.simps) auto
  qed
qed

lemma collect_all_zero:
  assumes "\<forall>d\<in>set (refContainer s). refCount d = 0"
  shows "refContainer (snd (collect s)) = []"
proof -
  obtain b' s' where c: "collect_loop False s = (b', s')" by (cases "collect_loop False s")
  have "refContainer s' = []"
  proof (cases "refContainer s'")
    case Nil
    then show ?thesis .
  next
    case (Cons d ds)
    then have d: "d \<in> set (refContainer s')" by simp
    with collect_loop_clean [OF c] have "refCount d \<noteq> 0" by simp
    moreover from d collect_loop_subset [OF c] assms have "refCount d = 0" by auto
    ultimately show ?thesis by simp
  qed
  with c show ?thesis by (simp add: collect_def)
qed

subsection \<open>Lookup\<close>

lemma findPtrInfo_Some:
  "findPtrInfo a rc = Some p \<Longrightarrow> p < length rc \<and> memPtr (rc ! p) = a"
  by (induction rc arbitrary: p) (auto split: if_splits)

lemma findPtrInfo_memPtr_cong:
  "map memPtr xs = map memPtr ys \<Longrightarrow> findPtrInfo a xs = findPtrInfo a ys"
proof (induction xs arbitrary: ys)
  case Nil
  then show ?case by simp
next
  case (Cons x xs)
  then obtain y ys' where "ys = y # ys'" by (cases ys) auto
  with Cons show ?case by auto
qed

lemma map_memPtr_refCount_at [simp]:
  "map memPtr (refCount_at f p rc) = map memPtr rc"
proof (cases "p < length rc")
  case True
  then have "(map memPtr rc)[p := map memPtr rc ! p] = map memPtr rc"
    by (simp only: list_update_id)
  with True show ?thesis by (simp add: refCount_at_def map_update)
next
  case False
  then have "length rc \<le> p" by simp
  then show ?thesis by (simp add: refCount_at_def list_update_beyond)
qed

lemma length_refCount_at [simp]: "length (refCount_at f p rc) = length rc"
  by (simp add: refCount_at_def)

lemma findPtrInfo_refCount_at [simp]:
  "findPtrInfo a (refCount_at f p rc) = findPtrInfo a rc"
  by (rule findPtrInfo_memPtr_cong) simp

lemma findPtrInfo_append:
  "findPtrInfo a rc = Some p \<Longrightarrow> findPtrInfo a (rc @ ds) = Some p"
  by (induction rc arbitrary: p) (auto split: if_splits)

lemma refCount_at_nth_same:
  "p < length rc \<Longrightarrow> refCount (refCount_at f p rc ! p) = f (refCount (rc ! p))"
  by (simp add: refCount_at_def)

lemma refCount_at_nth_other:
  "q \<noteq> p \<Longrightarrow> refCount_at f p rc ! q = rc ! q"
  by (simp add: refCount_at_def)

subsection \<open>What the collector removes\<close>

lemma collect_loop_survivors:
  "collect_loop b s = (b', s') \<Longrightarrow>
     refContainer s' =
       filter (\<lambda>x. \<forall>d\<in>set (refContainer s). refCount d = 0 \<longrightarrow> memPtr x \<noteq> memPtr d)
         (refContainer s)"
proof (induction b s arbitrary: b' s' rule: collect_loop.induct)
  case (1 memFreed s)
  show ?case
  proof (cases "find_unreferenced (refContainer s)")
    case None
    then have "\<forall>d\<in>set (refContainer s). refCount d \<noteq> 0"
      by (simp add: find_unreferenced_None_iff)
    moreover from None "1.prems" have "s' = s" by (subst (asm) collect_loop.simps) simp
    ultimately show ?thesis by simp
  next
    case (Some e)
    let ?s1 = "s\<lparr>refContainer := list_remove e (refContainer s),
                  deleted := (if memPtr e \<noteq> nullptr
                              then deleted s @ [(memPtr e, isArray e)] else deleted s)\<rparr>"
    from Some "1.prems" have "collect_loop True ?s1 = (b', s')"
      by (subst (asm) collect_loop.simps) simp
    from "1.IH" [OF Some this]
    have "refContainer s' =
            filter (\<lambda>x. \<forall>d\<in>set (list_remove e (refContainer s)). refCount d = 0 \<longrightarrow> memPtr x \<noteq> memPtr d)
              (list_remove e (refContainer s))"
      by simp
    also have "\<dots> = filter (\<lambda>x. \<forall>d\<in>set (refContainer s). refCount d = 0 \<longrightarrow> memPtr x \<noteq> memPtr d)
              (refContainer s)"
      using find_unreferenced_mem [OF Some]
      unfolding list_remove_def PtrDetails_eq_def filter_filter
      by (intro filter_cong refl) auto
    finally show ?thesis .
  qed
qed

lemma collect_loop_flag:
  "collect_loop b s = (b', s') \<Longrightarrow>
     b' = (b \<or> (\<exists>d\<in>set (refContainer s). refCount d = 0))"
proof (induction b s arbitrary: b' s' rule: collect_loop.induct)
  case (1 memFreed s)
  show ?case
  proof (cases "find_unreferenced (refContainer s)")
    case None
    with "1.prems" show ?thesis
      by (subst (asm) collect_loop.simps) (auto simp: find_unreferenced_None_iff)
  next
    case (Some e)
    with "1.prems" "1.IH" [OF Some] find_unreferenced_mem [OF Some] show ?thesis
      by (subst (asm) collect_loop.simps) auto
  qed
qed

lemma collect_loop_log:
  "collect_loop b s = (b', s') \<Longrightarrow>
     \<exists>new. deleted s' = deleted s @ new \<and> distinct (map fst new)
        \<and> (\<forall>x\<in>set new. fst x \<noteq> nullptr
              \<and> (\<exists>d\<in>set (refContainer s).
                    refCount d = 0 \<and> memPtr d = fst x \<and> isArray d = snd x))"
proof (induction b s arbitrary: b' s' rule: collect_loop.induct)
  case (1 memFreed s)
  show ?case
  proof (cases "find_unreferenced (refContainer s)")
    case None
    with "1.prems" have "s' = s" by (subst (asm) collect_loop.simps) simp
    then show ?thesis by simp
  next
    case (Some e)
    let ?log = "if memPtr e \<noteq> nullptr then [(memPtr e, isArray e)] else []"
    let ?s1 = "s\<lparr>refContainer := list_remove e (refContainer s),
                  deleted := (if memPtr e \<noteq> nullptr
                              then deleted s @ [(memPtr e, isArray e)] else deleted s)\<rparr>"
    from Some "1.prems" have "collect_loop True ?s1 = (b', s')"
      by (subst (asm) collect_loop.simps) simp
    from "1.IH" [OF Some this] obtain new1 where
      n1: "deleted s' = deleted ?s1 @ new1" and
      n2: "distinct (map fst new1)" and
      n3: "\<forall>x\<in>set new1. fst x \<noteq> nullptr
              \<and> (\<exists>d\<in>set (list_remove e (refContainer s)).
                    refCount d = 0 \<and> memPtr d = fst x \<and> isArray d = snd x)"
      by auto
    have e: "e \<in> set (refContainer s)" "refCount e = 0"
      using find_unreferenced_mem [OF Some] by simp_all
    have fresh: "memPtr e \<notin> fst ` set new1"
      using n3 by (auto simp: list_remove_def PtrDetails_eq_def)
    have "deleted s' = deleted s @ (?log @ new1)" using n1 by simp
    moreover have "distinct (map fst (?log @ new1))" using n2 fresh by simp
    moreover have "\<forall>x\<in>set (?log @ new1). fst x \<noteq> nullptr
              \<and> (\<exists>d\<in>set (refContainer s).
                    refCount d = 0 \<and> memPtr d = fst x \<and> isArray d = snd x)"
      using n3 e by (auto simp: list_remove_def)
    ultimately show ?thesis by blast
  qed
qed

lemma collect_loop_deletes:
  "collect_loop b s = (b', s') \<Longrightarrow> d \<in> set (refContainer s) \<Longrightarrow> refCount d = 0 \<Longrightarrow>
     memPtr d \<noteq> nullptr \<Longrightarrow> memPtr d \<in> fst ` set (deleted s')"
proof (induction b s arbitrary: b' s' rule: collect_loop.induct)
  case (1 memFreed s)
  show ?case
  proof (cases "find_unreferenced (refContainer s)")
    case None
    with "1.prems" show ?thesis by (simp add: find_unreferenced_None_iff)
  next
    case (Some e)
    let ?s1 = "s\<lparr>refContainer := list_remove e (refContainer s),
                  deleted := (if memPtr e \<noteq> nullptr
                              then deleted s @ [(memPtr e, isArray e)] else deleted s)\<rparr>"
    from Some "1.prems" have c: "collect_loop True ?s1 = (b', s')"
      by (subst (asm) collect_loop.simps) simp
    show ?thesis
    proof (cases "memPtr d = memPtr e")
      case True
      with "1.prems" have "memPtr d \<in> fst ` set (deleted ?s1)" by force
      moreover from collect_loop_log [OF c] have "set (deleted ?s1) \<subseteq> set (deleted s')"
        by auto
      ultimately show ?thesis by blast
    next
      case False
      with "1.prems" have "d \<in> set (refContainer ?s1)"
        by (simp add: list_remove_def PtrDetails_eq_def)
      from "1.IH" [OF Some c this] "1.prems" show ?thesis by simp
    qed
  qed
qed

lemma findPtrInfo_None_iff: "findPtrInfo a rc = None \<longleftrightarrow> a \<notin> memPtr ` set rc"
  by (induction rc) auto

lemma collect_reclaims:
  assumes "d \<in> set (refContainer s)" and "refCount d = 0"
  shows "fst (collect s) \<and> findPtrInfo (memPtr d) (refContainer (snd (collect s))) = None
         \<and> (memPtr d \<noteq> nullptr \<longrightarrow> memPtr d \<in> fst ` set (deleted (snd (collect s))))"
proof -
  obtain b' s' where c: "collect_loop False s = (b', s')" by (cases "collect_loop False s")
  from collect_loop_flag [OF c] assms have "b'" by auto
  moreover from collect_loop_survivors [OF c] assms
  have "memPtr d \<notin> memPtr ` set (refContainer s')" by auto
  moreover from collect_loop_deletes [OF c assms]
  have "memPtr d \<noteq> nullptr \<longrightarrow> memPtr d \<in> fst ` set (deleted s')" by simp
  ultimately show ?thesis using c by (simp add: collect_def findPtrInfo_None_iff)
qed

subsection \<open>Reassignment\<close>

lemma assign_ptr_keeps_old_entry:
  assumes "assign_ptr tsize indet this t s = Inr (r, s')"
  shows "r = t \<and> deleted s' = deleted s
         \<and> (\<exists>ob p. map_of (objs s) this = Some ob
               \<and> findPtrInfo (addr ob) (refContainer s) = Some p
               \<and> findPtrInfo (addr ob) (refContainer s') = Some p
               \<and> (t \<noteq> addr ob \<longrightarrow>
                    refCount (refContainer s' ! p) = refCount (refContainer s ! p) - 1))"
proof -
  from assms obtain ob p where
    ob: "map_of (objs s) this = Some ob" and
    p: "findPtrInfo (addr ob) (refContainer s) = Some p"
    by (auto simp: assign_ptr_def split: option.splits)
  let ?rc = "refCount_at (\<lambda>c. c - 1) p (refContainer s)"
  have pl: "p < length (refContainer s)" and pa: "memPtr (refContainer s ! p) = addr ob"
    using findPtrInfo_Some [OF p] by simp_all
  show ?thesis
  proof (cases "findPtrInfo t ?rc")
    case None
    with assms ob p have s': "r = t" "deleted s' = deleted s"
      "refContainer s' = ?rc @ [PtrDetails_ctor indet t (word_of_int tsize)]"
      by (auto simp: assign_ptr_def)
    have "findPtrInfo (addr ob) (refContainer s') = Some p"
      using p by (simp add: s' findPtrInfo_append)
    moreover have "refCount (refContainer s' ! p) = refCount (refContainer s ! p) - 1"
      using pl by (simp add: s' nth_append refCount_at_nth_same)
    ultimately show ?thesis using s' ob p by simp
  next
    case (Some q)
    with assms ob p have s': "r = t" "deleted s' = deleted s"
      "refContainer s' = refCount_at (\<lambda>c. c + 1) q ?rc"
      by (auto simp: assign_ptr_def)
    have "findPtrInfo (addr ob) (refContainer s') = Some p"
      using p by (simp add: s')
    moreover have "refCount (refContainer s' ! p) = refCount (refContainer s ! p) - 1"
      if "t \<noteq> addr ob"
    proof -
      from findPtrInfo_Some [OF Some] have "memPtr (?rc ! q) = t" by simp
      moreover have "memPtr (?rc ! p) = addr ob"
        using pl pa by (simp add: refCount_at_def)
      ultimately have "p \<noteq> q" using that by auto
      then show ?thesis using pl by (simp add: s' refCount_at_nth_other refCount_at_nth_same)
    qed
    ultimately show ?thesis using s' ob p by simp
  qed
qed

lemma assign_Pointer_keeps_old_entry:
  assumes "assign_Pointer this rv s = Inr (r, s')"
  shows "deleted s' = deleted s
         \<and> (\<exists>ob rvo p. map_of (objs s) this = Some ob \<and> map_of (objs s) rv = Some rvo
               \<and> findPtrInfo (addr ob) (refContainer s) = Some p
               \<and> findPtrInfo (addr ob) (refContainer s') = Some p
               \<and> (addr rvo \<noteq> addr ob \<longrightarrow>
                    refCount (refContainer s' ! p) = refCount (refContainer s ! p) - 1))"
proof -
  from assms obtain ob rvo p where
    ob: "map_of (objs s) this = Some ob" and
    rvo: "map_of (objs s) rv = Some rvo" and
    p: "findPtrInfo (addr ob) (refContainer s) = Some p"
    by (auto simp: assign_Pointer_def split: option.splits)
  let ?rc = "refCount_at (\<lambda>c. c - 1) p (refContainer s)"
  have pl: "p < length (refContainer s)" and pa: "memPtr (refContainer s ! p) = addr ob"
    using findPtrInfo_Some [OF p] by simp_all
  from assms ob rvo p obtain q where q: "findPtrInfo (addr rvo) ?rc = Some q"
    by (auto simp: assign_Pointer_def Let_def split: option.splits)
  with assms ob rvo p have s': "deleted s' = deleted s"
    "refContainer s' = refCount_at (\<lambda>c. c + 1) q ?rc"
    by (auto simp: assign_Pointer_def)
  have "findPtrInfo (addr ob) (refContainer s') = Some p"
    using p by (simp add: s')
  moreover have "refCount (refContainer s' ! p) = refCount (refContainer s ! p) - 1"
    if "addr rvo \<noteq> addr ob"
  proof -
    from findPtrInfo_Some [OF q] have "memPtr (?rc ! q) = addr rvo" by simp
    moreover have "memPtr (?rc ! p) = addr ob"
      using pl pa by (simp add: refCount_at_def)
    ultimately have "p \<noteq> q" using that by auto
    then show ?thesis using pl by (simp add: s' refCount_at_nth_other refCount_at_nth_same)
  qed
  ultimately show ?thesis using s' ob rvo p by simp
qed

subsection \<open>The deallocation log\<close>

lemma log_consistent_frame:
  assumes "log_consistent s" and "deleted s' = deleted s"
    and "memPtr ` set (refContainer s') \<subseteq> insert t (memPtr ` set (refContainer s))"
    and "t \<notin> fst ` set (deleted s)"
  shows "log_consistent s'"
proof -
  have "memPtr d \<notin> fst ` set (deleted s)" if "d \<in> set (refContainer s')" for d
  proof -
    from that assms(3) have "memPtr d = t \<or> memPtr d \<in> memPtr ` set (refContainer s)"
      by blast
    then show ?thesis
    proof
      assume "memPtr d = t"
      with assms(4) show ?thesis by simp
    next
      assume "memPtr d \<in> memPtr ` set (refContainer s)"
      then obtain d0 where "d0 \<in> set (refContainer s)" "memPtr d = memPtr d0" by blast
      with assms(1) show ?thesis by (simp add: log_consistent_def)
    qed
  qed
  with assms(1,2) show ?thesis by (simp add: log_consistent_def)
qed

lemma log_consistent_same:
  assumes "log_consistent s" and "deleted s' = deleted s"
    and "memPtr ` set (refContainer s') = memPtr ` set (refContainer s)"
  shows "log_consistent s'"
proof -
  have "memPtr d \<notin> fst ` set (deleted s)" if "d \<in> set (refContainer s')" for d
  proof -
    from that assms(3) have "memPtr d \<in> memPtr ` set (refContainer s)" by blast
    then obtain d0 where "d0 \<in> set (refContainer s)" "memPtr d = memPtr d0" by blast
    with assms(1) show ?thesis by (simp add: log_consistent_def)
  qed
  with assms(1,2) show ?thesis by (simp add: log_consistent_def)
qed

lemma memPtr_set_refCount_at [simp]:
  "memPtr ` set (refCount_at f p rc) = memPtr ` set rc"
proof -
  have "set (map memPtr (refCount_at f p rc)) = set (map memPtr rc)" by simp
  then show ?thesis by (simp only: set_map)
qed

lemma collect_log_consistent:
  assumes "log_consistent s"
  shows "log_consistent (snd (collect s))"
proof -
  obtain b' s' where c: "collect_loop False s = (b', s')" by (cases "collect_loop False s")
  define Z where "Z = memPtr ` {d \<in> set (refContainer s). refCount d = 0}"
  from collect_loop_log [OF c] obtain new where
    n: "deleted s' = deleted s @ new" "distinct (map fst new)"
       "\<forall>x\<in>set new. fst x \<noteq> nullptr
          \<and> (\<exists>d\<in>set (refContainer s). refCount d = 0 \<and> memPtr d = fst x \<and> isArray d = snd x)"
    by blast
  have newZ: "fst x \<in> Z" and newN: "fst x \<noteq> nullptr" if "x \<in> set new" for x
  proof -
    from n(3) that obtain d where "d \<in> set (refContainer s)" "refCount d = 0" "memPtr d = fst x"
      by blast
    then have "memPtr d \<in> Z" unfolding Z_def by blast
    with \<open>memPtr d = fst x\<close> show "fst x \<in> Z" by simp
    from n(3) that show "fst x \<noteq> nullptr" by blast
  qed
  have Zlog: "a \<notin> fst ` set (deleted s)" if "a \<in> Z" for a
  proof -
    from that obtain d where "d \<in> set (refContainer s)" "a = memPtr d" unfolding Z_def by blast
    with assms show ?thesis by (simp add: log_consistent_def)
  qed
  have disj: "set (map fst (deleted s)) \<inter> set (map fst new) = {}"
  proof (rule ccontr)
    assume "set (map fst (deleted s)) \<inter> set (map fst new) \<noteq> {}"
    then obtain a where a: "a \<in> fst ` set (deleted s)" "a \<in> fst ` set new" by auto
    from a(2) obtain x where "x \<in> set new" "a = fst x" by blast
    with newZ have "a \<in> Z" by simp
    with Zlog a(1) show False by blast
  qed
  have d1: "distinct (map fst (deleted s'))"
    using n(1,2) disj assms by (simp add: log_consistent_def)
  have d2: "nullptr \<notin> fst ` set (deleted s')"
  proof
    assume "nullptr \<in> fst ` set (deleted s')"
    with n(1) have "nullptr \<in> fst ` set (deleted s) \<or> nullptr \<in> fst ` set new" by auto
    then show False
    proof
      assume "nullptr \<in> fst ` set (deleted s)"
      with assms show False by (simp add: log_consistent_def)
    next
      assume "nullptr \<in> fst ` set new"
      then obtain x where "x \<in> set new" "fst x = nullptr" by force
      with newN show False by blast
    qed
  qed
  have d3: "memPtr x \<notin> fst ` set (deleted s')" if x: "x \<in> set (refContainer s')" for x
  proof
    assume "memPtr x \<in> fst ` set (deleted s')"
    with n(1) have "memPtr x \<in> fst ` set (deleted s) \<or> memPtr x \<in> fst ` set new" by auto
    then show False
    proof
      assume m: "memPtr x \<in> fst ` set (deleted s)"
      from x collect_loop_subset [OF c] have "x \<in> set (refContainer s)" by blast
      with assms m show False by (simp add: log_consistent_def)
    next
      assume "memPtr x \<in> fst ` set new"
      then obtain y where "y \<in> set new" "memPtr x = fst y" by force
      with newZ have "memPtr x \<in> Z" by simp
      then obtain d where d: "d \<in> set (refContainer s)" "refCount d = 0" "memPtr x = memPtr d"
        unfolding Z_def by blast
      from x have "x \<in> set (filter
          (\<lambda>x. \<forall>d\<in>set (refContainer s). refCount d = 0 \<longrightarrow> memPtr x \<noteq> memPtr d)
          (refContainer s))"
        by (simp only: collect_loop_survivors [OF c])
      then have "\<forall>d\<in>set (refContainer s). refCount d = 0 \<longrightarrow> memPtr x \<noteq> memPtr d"
        by simp
      with d show False by blast
    qed
  qed
  from d1 d2 d3 have "log_consistent s'" by (simp add: log_consistent_def)
  with c show ?thesis by (simp add: collect_def)
qed

lemma log_consistent_objs [simp]:
  "log_consistent (s\<lparr>objs := os\<rparr>) = log_consistent s"
  by (simp add: log_consistent_def)

lemma Pointer_ctor_log_consistent:
  assumes "log_consistent s" and "t \<notin> fst ` set (deleted s)"
  shows "log_consistent (Pointer_ctor tsize indet this t s)"
  by (rule log_consistent_frame [OF assms(1) _ _ assms(2)])
     (auto simp: Pointer_ctor_def Let_def PtrDetails_ctor_def)

lemma Pointer_copy_log_consistent:
  assumes "log_consistent s" and "Pointer_copy this obj s = Inr s'"
  shows "log_consistent s'"
proof -
  from assms(2) obtain p os where
    "s' = s\<lparr>refContainer := refCount_at (\<lambda>c. c + 1) p (refContainer s), objs := os\<rparr>"
    by (auto simp: Pointer_copy_def split: option.splits)
  then have "deleted s' = deleted s"
    and "memPtr ` set (refContainer s') = memPtr ` set (refContainer s)"
    by simp_all
  with assms(1) show ?thesis by (rule log_consistent_same)
qed

lemma Pointer_dtor_Inr:
  assumes "Pointer_dtor this s = Inr s'"
  obtains ob p where "map_of (objs s) this = Some ob"
    and "findPtrInfo (addr ob) (refContainer s) = Some p"
    and "s' = (snd (collect (s\<lparr>refContainer :=
                 (if refCount (refContainer s ! p) \<noteq> 0
                  then refCount_at (\<lambda>c. c - 1) p (refContainer s)
                  else refContainer s)\<rparr>)))
              \<lparr>objs := AList.delete this (objs s)\<rparr>"
proof -
  from assms obtain ob where ob: "map_of (objs s) this = Some ob"
    by (cases "map_of (objs s) this") (simp_all add: Pointer_dtor_def)
  from assms ob obtain p where p: "findPtrInfo (addr ob) (refContainer s) = Some p"
    by (cases "findPtrInfo (addr ob) (refContainer s)") (simp_all add: Pointer_dtor_def)
  let ?s1 = "s\<lparr>refContainer :=
                 (if refCount (refContainer s ! p) \<noteq> 0
                  then refCount_at (\<lambda>c. c - 1) p (refContainer s)
                  else refContainer s)\<rparr>"
  obtain b1 s1 where c: "collect_loop False ?s1 = (b1, s1)"
    by (cases "collect_loop False ?s1")
  from collect_loop_frame [OF c] have "objs s1 = objs s" by simp
  with assms ob p c have "s' = (snd (collect ?s1))\<lparr>objs := AList.delete this (objs s)\<rparr>"
    by (simp add: Pointer_dtor_def Let_def collect_def)
  with ob p that show ?thesis by blast
qed

lemma Pointer_dtor_log_consistent:
  assumes "log_consistent s" and "Pointer_dtor this s = Inr s'"
  shows "log_consistent s'"
proof -
  from assms(2) obtain ob p where
    s': "s' = (snd (collect (s\<lparr>refContainer :=
                 (if refCount (refContainer s ! p) \<noteq> 0
                  then refCount_at (\<lambda>c. c - 1) p (refContainer s)
                  else refContainer s)\<rparr>)))
              \<lparr>objs := AList.delete this (objs s)\<rparr>"
    by (rule Pointer_dtor_Inr)
  let ?rc = "if refCount (refContainer s ! p) \<noteq> 0
             then refCount_at (\<lambda>c. c - 1) p (refContainer s) else refContainer s"
  have "memPtr ` set ?rc = memPtr ` set (refContainer s)" by simp
  then have "log_consistent (s\<lparr>refContainer := ?rc\<rparr>)"
    using log_consistent_same [OF assms(1), of "s\<lparr>refContainer := ?rc\<rparr>"] by simp
  from collect_log_consistent [OF this] show ?thesis unfolding s' by simp
qed

lemma Pointer_default_log_consistent:
  assumes "log_consistent s" and "Pointer_default tsize indet garbage tmp this s = Inr s'"
  shows "log_consistent s'"
proof -
  let ?s0 = "s\<lparr>objs := AList.update this garbage (objs s)\<rparr>"
  have 0: "log_consistent ?s0" using assms(1) by simp
  have "nullptr \<notin> fst ` set (deleted ?s0)" using assms(1) by (simp add: log_consistent_def)
  from Pointer_ctor_log_consistent [OF 0 this]
  have "log_consistent (Pointer_ctor tsize indet tmp nullptr ?s0)" .
  from Pointer_dtor_log_consistent [OF this] assms(2) show ?thesis
    by (simp add: Pointer_default_def)
qed

lemma assign_ptr_log_consistent:
  assumes "log_consistent s" and "t \<notin> fst ` set (deleted s)"
    and "assign_ptr tsize indet this t s = Inr (r, s')"
  shows "log_consistent s'"
proof -
  from assms(3) obtain ob p where
    ob: "map_of (objs s) this = Some ob" and
    p: "findPtrInfo (addr ob) (refContainer s) = Some p"
    by (auto simp: assign_ptr_def split: option.splits)
  let ?rc = "refCount_at (\<lambda>c. c - 1) p (refContainer s)"
  have "deleted s' = deleted s"
    using assms(3) ob p by (auto simp: assign_ptr_def Let_def)
  moreover have "memPtr ` set (refContainer s') \<subseteq> insert t (memPtr ` set (refContainer s))"
  proof (cases "findPtrInfo t ?rc")
    case None
    with assms(3) ob p have "refContainer s' = ?rc @ [PtrDetails_ctor indet t (word_of_int tsize)]"
      by (auto simp: assign_ptr_def)
    then show ?thesis by (simp add: PtrDetails_ctor_def)
  next
    case (Some q)
    with assms(3) ob p have "refContainer s' = refCount_at (\<lambda>c. c + 1) q ?rc"
      by (auto simp: assign_ptr_def)
    then show ?thesis by auto
  qed
  ultimately show ?thesis using assms(2) by (rule log_consistent_frame [OF assms(1)])
qed

lemma assign_Pointer_log_consistent:
  assumes "log_consistent s" and "assign_Pointer this rv s = Inr (r, s')"
  shows "log_consistent s'"
proof -
  from assms(2) obtain p q os where
    "s' = s\<lparr>refContainer := refCount_at (\<lambda>c. c + 1) q
                               (refCount_at (\<lambda>c. c - 1) p (refContainer s)), objs := os\<rparr>"
    by (auto simp: assign_Pointer_def Let_def split: option.splits)
  then have "deleted s' = deleted s"
    and "memPtr ` set (refContainer s') = memPtr ` set (refContainer s)"
    by simp_all
  with assms(1) show ?thesis by (rule log_consistent_same)
qed

lemma shutdown_log_consistent:
  assumes "log_consistent s"
  shows "log_consistent (shutdown s)"
proof -
  have "log_consistent (s\<lparr>refContainer := map (\<lambda>d. d\<lparr>refCount := 0\<rparr>) (refContainer s)\<rparr>)"
    using assms by (rule log_consistent_same) (simp_all add: image_image)
  from collect_log_consistent [OF this] assms show ?thesis by (simp add: shutdown_def)
qed

lemma step_log_consistent:
  assumes "log_consistent s" and "step tsize x s = Inr s'"
    and "case raw_address x of None \<Rightarrow> True | Some t \<Rightarrow> t \<notin> fst ` set (deleted s)"
  shows "log_consistent s'"
proof (cases x)
  case (Construct indet this t)
  with assms Pointer_ctor_log_consistent [of s t tsize indet this] show ?thesis by auto
next
  case (DefaultConstruct indet garbage tmp this)
  with assms Pointer_default_log_consistent [of s tsize indet garbage tmp this s']
  show ?thesis by simp
next
  case (CopyConstruct this obj)
  with assms Pointer_copy_log_consistent [of s this obj s'] show ?thesis by simp
next
  case (Destroy this)
  with assms Pointer_dtor_log_consistent [of s this s'] show ?thesis by simp
next
  case (AssignPtr indet this t)
  with assms assign_ptr_log_consistent [of s t tsize indet this] show ?thesis
    by (auto split: sum.splits)
next
  case (AssignPointer this rv)
  with assms assign_Pointer_log_consistent [of s this rv] show ?thesis
    by (auto split: sum.splits)
next
  case Collect
  with assms collect_log_consistent [of s] show ?thesis by auto
next
  case Shutdown
  with assms shutdown_log_consistent [of s] show ?thesis by auto
qed

lemma run_log_consistent:
  "log_consistent s \<Longrightarrow> hands_over_live_memory tsize ops s \<Longrightarrow> run tsize ops s = Inr s' \<Longrightarrow>
     log_consistent s'"
proof (induction ops arbitrary: s)
  case Nil
  then show ?case by simp
next
  case (Cons x xs)
  from Cons.prems(3) obtain s1 where s1: "step tsize x s = Inr s1" "run tsize xs s1 = Inr s'"
    by (auto split: sum.splits)
  from Cons.prems(2) s1 have
    live: "case raw_address x of None \<Rightarrow> True | Some t \<Rightarrow> t \<notin> fst ` set (deleted s)"
    and rest: "hands_over_live_memory tsize xs s1"
    by simp_all
  from step_log_consistent [OF Cons.prems(1) s1(1) live] have "log_consistent s1" .
  from Cons.IH [OF this rest s1(2)] show ?case .
qed

lemma Pointer_dtor_deallocates_unreferenced:
  assumes "Pointer_dtor this s = Inr s'"
  shows "\<exists>ob new. map_of (objs s) this = Some ob \<and> deleted s' = deleted s @ new
           \<and> distinct (map fst new)
           \<and> (\<forall>x\<in>set new. \<exists>d\<in>set (refContainer s). memPtr d = fst x
                 \<and> (refCount d = 0
                      \<or> fst x = addr ob \<and> tracked_count (addr ob) s = Some 1))"
proof -
  from assms obtain ob p where
    ob: "map_of (objs s) this = Some ob" and
    p: "findPtrInfo (addr ob) (refContainer s) = Some p" and
    s': "s' = (snd (collect (s\<lparr>refContainer :=
                 (if refCount (refContainer s ! p) \<noteq> 0
                  then refCount_at (\<lambda>c. c - 1) p (refContainer s)
                  else refContainer s)\<rparr>)))
              \<lparr>objs := AList.delete this (objs s)\<rparr>"
    by (rule Pointer_dtor_Inr)
  let ?rc = "if refCount (refContainer s ! p) \<noteq> 0
             then refCount_at (\<lambda>c. c - 1) p (refContainer s) else refContainer s"
  let ?s1 = "s\<lparr>refContainer := ?rc\<rparr>"
  have pl: "p < length (refContainer s)" and pa: "memPtr (refContainer s ! p) = addr ob"
    using findPtrInfo_Some [OF p] by simp_all
  obtain b1 s1 where c: "collect_loop False ?s1 = (b1, s1)"
    by (cases "collect_loop False ?s1")
  from collect_loop_log [OF c] obtain new where
    n: "deleted s1 = deleted s @ new" "distinct (map fst new)"
       "\<forall>x\<in>set new. fst x \<noteq> nullptr
          \<and> (\<exists>d\<in>set ?rc. refCount d = 0 \<and> memPtr d = fst x \<and> isArray d = snd x)"
    by auto
  have "\<exists>d\<in>set (refContainer s). memPtr d = fst x
          \<and> (refCount d = 0 \<or> fst x = addr ob \<and> tracked_count (addr ob) s = Some 1)"
    if x: "x \<in> set new" for x
  proof -
    from n(3) x obtain d1 where d1: "d1 \<in> set ?rc" "refCount d1 = 0" "memPtr d1 = fst x"
      by blast
    show ?thesis
    proof (cases "refCount (refContainer s ! p) \<noteq> 0")
      case False
      with d1 show ?thesis by auto
    next
      case True
      with d1(1) obtain i where i: "i < length (refContainer s)"
        "d1 = refCount_at (\<lambda>c. c - 1) p (refContainer s) ! i"
        by (auto simp: in_set_conv_nth)
      show ?thesis
      proof (cases "i = p")
        case False
        with i have "d1 = refContainer s ! i" by (simp add: refCount_at_nth_other)
        with i(1) d1 show ?thesis by auto
      next
        case ip: True
        with i d1(2) pl have "refCount (refContainer s ! p) - 1 = 0"
          by (simp add: refCount_at_nth_same)
        then have one: "refCount (refContainer s ! p) = 1" by simp
        have "memPtr d1 = memPtr (refContainer s ! p)"
          using i ip pl by (simp add: refCount_at_def)
        with d1(3) pa have "fst x = addr ob" by simp
        moreover have "tracked_count (addr ob) s = Some 1"
          using p one by (simp add: tracked_count_def)
        moreover have "refContainer s ! p \<in> set (refContainer s)" using pl by simp
        ultimately show ?thesis using pa by auto
      qed
    qed
  qed
  moreover have "deleted s' = deleted s @ new"
    using s' c n(1) by (simp add: collect_def)
  ultimately show ?thesis using ob n(2) by blast
qed

lemma collect_deallocates_unreferenced:
  "\<exists>new. deleted (snd (collect s)) = deleted s @ new \<and> distinct (map fst new)
      \<and> (\<forall>x\<in>set new.
            (\<exists>d\<in>set (refContainer s). refCount d = 0 \<and> memPtr d = fst x \<and> isArray d = snd x)
            \<and> findPtrInfo (fst x) (refContainer (snd (collect s))) = None)"
proof -
  obtain b' s' where c: "collect_loop False s = (b', s')" by (cases "collect_loop False s")
  from collect_loop_log [OF c] obtain new where
    n: "deleted s' = deleted s @ new" "distinct (map fst new)"
       "\<forall>x\<in>set new. fst x \<noteq> nullptr
          \<and> (\<exists>d\<in>set (refContainer s). refCount d = 0 \<and> memPtr d = fst x \<and> isArray d = snd x)"
    by blast
  have "findPtrInfo (fst x) (refContainer s') = None" if "x \<in> set new" for x
  proof -
    from n(3) that obtain d where d: "d \<in> set (refContainer s)" "refCount d = 0"
      "memPtr d = fst x" by blast
    from collect_reclaims [OF d(1,2)] c d(3) show ?thesis by (simp add: collect_def)
  qed
  with n c show ?thesis by (auto simp: collect_def)
qed

lemma init_state_log_consistent: "log_consistent init_state"
  by (simp add: log_consistent_def init_state_def)

subsection \<open>Conversions\<close>

lemma sint_of_small_int:
  "0 \<le> n \<Longrightarrow> n < 2 ^ 31 \<Longrightarrow> sint (word_of_int n :: 32 word) = n"
  by (simp add: sint_sbintrunc' signed_take_bit_int_eq_self)

lemma refContainerSize_exact:
  assumes "length (refContainer s) < 2 ^ 31"
  shows "refContainerSize s = int (length (refContainer s))"
proof -
  have "int (length (refContainer s)) < 2 ^ 31" using assms by simp
  with sint_of_small_int [of "int (length (refContainer s))"] show ?thesis
    by (simp add: refContainerSize_def)
qed

lemma word_of_small_int_eq_0:
  assumes "0 \<le> N" and "N < 2 ^ 31"
  shows "(word_of_int N :: 32 word) = 0 \<longleftrightarrow> N = 0"
proof
  assume "(word_of_int N :: 32 word) = 0"
  then have "sint (word_of_int N :: 32 word) = 0" by simp
  with sint_of_small_int [OF assms] show "N = 0" by simp
qed simp

subsection \<open>Deallocation of live memory\<close>

lemma Pointer_dtor_deallocates_through_collect:
  assumes "Pointer_dtor this s = Inr s'"
  shows "\<exists>ob p. map_of (objs s) this = Some ob
           \<and> findPtrInfo (addr ob) (refContainer s) = Some p
           \<and> deleted s' =
               deleted (snd (collect (s\<lparr>refContainer :=
                 (if refCount (refContainer s ! p) \<noteq> 0
                  then refCount_at (\<lambda>c. c - 1) p (refContainer s)
                  else refContainer s)\<rparr>)))"
proof -
  from assms obtain ob p where
    "map_of (objs s) this = Some ob" and
    "findPtrInfo (addr ob) (refContainer s) = Some p" and
    "s' = (snd (collect (s\<lparr>refContainer :=
                 (if refCount (refContainer s ! p) \<noteq> 0
                  then refCount_at (\<lambda>c. c - 1) p (refContainer s)
                  else refContainer s)\<rparr>)))
              \<lparr>objs := AList.delete this (objs s)\<rparr>"
    by (rule Pointer_dtor_Inr)
  then show ?thesis by auto
qed

text \<open>
  What holds of deallocation when no call receives an address that has been
  deallocated before.

  \<^item> In the state such a program reaches from the initial state, no address has been
    deallocated twice.
  \<^item> What a call of \<open>collect()\<close> deallocates, it deallocates once; each such address had
    a registry entry with reference count zero when \<open>collect()\<close> was called, in the
    mode that entry records, and has no entry afterwards.
  \<^item> What the destructor deallocates was registered with count zero, or is the
    destroyed handle's memory and was registered with count one.
  \<^item> The constructors and the two assignment operators deallocate nothing.
\<close>

lemma deallocation_discipline:
  "(run tsize ops init_state = Inr s \<and> hands_over_live_memory tsize ops init_state \<longrightarrow>
      distinct (map fst (deleted s)))
   \<and> (\<exists>new. deleted (snd (collect s0)) = deleted s0 @ new \<and> distinct (map fst new)
         \<and> (\<forall>x\<in>set new.
               (\<exists>d\<in>set (refContainer s0).
                   refCount d = 0 \<and> memPtr d = fst x \<and> isArray d = snd x)
               \<and> findPtrInfo (fst x) (refContainer (snd (collect s0))) = None))
   \<and> (Pointer_dtor this s1 = Inr s1' \<longrightarrow>
        (\<exists>ob new. map_of (objs s1) this = Some ob \<and> deleted s1' = deleted s1 @ new
           \<and> distinct (map fst new)
           \<and> (\<forall>x\<in>set new. \<exists>d\<in>set (refContainer s1). memPtr d = fst x
                 \<and> (refCount d = 0
                      \<or> fst x = addr ob \<and> tracked_count (addr ob) s1 = Some 1))))
   \<and> deleted (Pointer_ctor tsize indet this t s2) = deleted s2
   \<and> (Pointer_copy this obj s2 = Inr s3 \<longrightarrow> deleted s3 = deleted s2)
   \<and> (assign_ptr tsize indet this t s2 = Inr (r, s4) \<longrightarrow> deleted s4 = deleted s2)
   \<and> (assign_Pointer this rv s2 = Inr (r', s5) \<longrightarrow> deleted s5 = deleted s2)"
  (is "?once \<and> ?collect \<and> ?dtor \<and> ?ctor \<and> ?copy \<and> ?raw \<and> ?handle")
proof -
  have ?once
    using run_log_consistent [OF init_state_log_consistent, of tsize ops s]
    by (auto simp: log_consistent_def)
  moreover have ?collect by (rule collect_deallocates_unreferenced)
  moreover have ?dtor using Pointer_dtor_deallocates_unreferenced [of this s1 s1'] by blast
  moreover have ?ctor by (simp add: Pointer_ctor_def Let_def)
  moreover have ?copy by (auto simp: Pointer_copy_def split: option.splits)
  moreover have ?raw using assign_ptr_keeps_old_entry [of tsize indet this t s2 r s4] by blast
  moreover have ?handle using assign_Pointer_keeps_old_entry [of this rv s2 r' s5] by blast
  ultimately show ?thesis by blast
qed

lemma deallocation_discipline_example:
  "(\<exists>s. run 0 [Construct 7 0 100, CopyConstruct 1 0, Destroy 1, Destroy 0] init_state = Inr s
        \<and> hands_over_live_memory 0 [Construct 7 0 100, CopyConstruct 1 0, Destroy 1, Destroy 0]
             init_state
        \<and> 100 \<in> fst ` set (deleted s)
        \<and> distinct (map fst (deleted s)))
   \<and> (\<exists>s'. Pointer_dtor 0 (Pointer_ctor 0 7 0 100 init_state) = Inr s'
        \<and> deleted s' = [(100, False)]
        \<and> tracked_count 100 (Pointer_ctor 0 7 0 100 init_state) = Some 1)"
proof -
  let ?ops = "[Construct 7 0 100, CopyConstruct 1 0, Destroy 1, Destroy 0]"
  let ?S = "Pointer_ctor 0 7 0 100 init_state"
  have r: "\<exists>s. run 0 ?ops init_state = Inr s \<and> 100 \<in> fst ` set (deleted s)"
    by (simp add: Pointer_ctor_def Pointer_copy_def Pointer_dtor_def init_state_def
        PtrDetails_ctor_def refCount_at_def collect_def collect_loop.simps list_remove_def
        PtrDetails_eq_def nullptr_def)
  then obtain s where s: "run 0 ?ops init_state = Inr s" "100 \<in> fst ` set (deleted s)"
    by blast
  have live: "hands_over_live_memory 0 ?ops init_state"
    by (simp add: Pointer_ctor_def Pointer_copy_def Pointer_dtor_def init_state_def
        PtrDetails_ctor_def refCount_at_def collect_def collect_loop.simps list_remove_def
        PtrDetails_eq_def nullptr_def)
  have d: "\<exists>s'. Pointer_dtor 0 ?S = Inr s' \<and> deleted s' = [(100, False)]"
    by (simp add: Pointer_ctor_def Pointer_dtor_def init_state_def
        PtrDetails_ctor_def refCount_at_def collect_def collect_loop.simps list_remove_def
        PtrDetails_eq_def nullptr_def)
  then obtain s' where s': "Pointer_dtor 0 ?S = Inr s'" "deleted s' = [(100, False)]"
    by blast
  have S: "deleted ?S = []" "map_of (objs ?S) 0 = Some \<lparr>addr = 100, ptr_isArray = False, ptr_arraySize = 0\<rparr>"
    "map refCount (refContainer ?S) = [1]"
    by (simp_all add: Pointer_ctor_def init_state_def PtrDetails_ctor_def)
  from deallocation_discipline [of 0 ?ops s s 0 ?S s'] s live
  have 1: "distinct (map fst (deleted s))" by blast
  from deallocation_discipline [of 0 ?ops s s 0 ?S s'] s' S
  have 2: "tracked_count 100 ?S = Some 1" by auto
  from s live 1 s' 2 show ?thesis by blast
qed

subsection \<open>Iteration bounds of a handle constructed from an address\<close>

text \<open>
  A handle constructed by \<open>Pointer<T, N>(t)\<close> has \<open>begin()\<close> at \<open>t\<close> and \<open>end()\<close> at
  \<open>t + N\<close>, both over the range from \<open>t\<close> to \<open>t + N\<close>: \<open>N\<close> elements for an array
  handle, and \<open>begin() = end()\<close> for a scalar handle (\<open>N = 0\<close>). \<open>N\<close> is a C++ \<open>int\<close>
  template argument that is not negative.
\<close>

lemma begin_end_span:
  assumes "0 \<le> N" and "N < 2 ^ 31"
  shows "\<exists>h. map_of (objs (Pointer_ctor N indet this t s)) this = Some h
             \<and> Pointer_begin h = Iter_ctor t t (t + N)
             \<and> Pointer_end h = Iter_ctor (t + N) t (t + N)
             \<and> current (Pointer_end h) - current (Pointer_begin h) = N
             \<and> (N = 0 \<longrightarrow> Pointer_begin h = Pointer_end h)"
proof (cases "N = 0")
  case True
  then show ?thesis
    by (simp add: Pointer_ctor_def Let_def update_conv' Pointer_begin_def Pointer_end_def
        Iter_ctor_def)
next
  case False
  with word_of_small_int_eq_0 [OF assms] have "(word_of_int N :: 32 word) \<noteq> 0" by simp
  with False sint_of_small_int [OF assms] show ?thesis
    by (simp add: Pointer_ctor_def Let_def update_conv' Pointer_begin_def Pointer_end_def
        Iter_ctor_def word_greater_zero_iff)
qed

lemma begin_end_span_example:
  "(\<exists>h. map_of (objs (Pointer_ctor 5 7 0 100 init_state)) 0 = Some h
        \<and> Pointer_begin h = Iter_ctor 100 100 105
        \<and> Pointer_end h = Iter_ctor 105 100 105
        \<and> current (Pointer_end h) - current (Pointer_begin h) = 5)
   \<and> (\<exists>h. map_of (objs (Pointer_ctor 0 7 0 100 init_state)) 0 = Some h
        \<and> Pointer_begin h = Pointer_end h)"
proof -
  have "(0::int) \<le> 5" and "(5::int) < 2 ^ 31" and "(0::int) \<le> 0" and "(0::int) < 2 ^ 31"
    by simp_all
  from begin_end_span [OF this(1,2), of 7 0 100 init_state]
       begin_end_span [OF this(3,4), of 7 0 100 init_state]
  show ?thesis by simp blast
qed

section \<open>Properties\<close>

subsection \<open>Reference counts and live handles\<close>

text \<open>
  C1. Two handles constructed from the same raw address: two handles are alive at the
  address, and the registry entry found for it counts one. Destroying the first handle
  then deallocates the memory while the second is alive.
\<close>

theorem two_constructions_one_count:
  "(\<exists>s. run 0 [Construct i 0 100, Construct j 1 100] init_state = Inr s
        \<and> handles_at 100 s = 2 \<and> tracked_count 100 s = Some 1)
   \<and> (\<exists>s. run 0 [Construct i 0 100, Construct j 1 100, Destroy 0] init_state = Inr s
        \<and> handles_at 100 s = 1 \<and> tracked_count 100 s = None
        \<and> deleted s = [(100, False)])"
  by (simp add: Pointer_ctor_def init_state_def PtrDetails_ctor_def handles_at_def
      tracked_count_def Pointer_dtor_def refCount_at_def collect_def collect_loop.simps
      list_remove_def PtrDetails_eq_def nullptr_def)

subsection \<open>One entry for each address\<close>

text \<open>
  C2. \<open>Pointer(T* t)\<close> appends an entry without looking the address up: after a second
  construction from the same address the registry has two entries for it. Assigning
  that address to a handle instead (\<open>operator=(T* t)\<close>) finds the entry and increments
  its count.
\<close>

theorem second_construction_duplicates_entry:
  "refContainer (Pointer_ctor 0 j 1 100 (Pointer_ctor 0 i 0 100 init_state)) =
     [\<lparr>refCount = 1, memPtr = 100, isArray = False, arraySize = 0\<rparr>,
      \<lparr>refCount = 1, memPtr = 100, isArray = False, arraySize = 0\<rparr>]
   \<and> (\<exists>s. assign_ptr 0 k 1 100 (Pointer_ctor 0 j 1 200 (Pointer_ctor 0 i 0 100 init_state))
             = Inr (100, s)
          \<and> refContainer s =
              [\<lparr>refCount = 2, memPtr = 100, isArray = False, arraySize = 0\<rparr>,
               \<lparr>refCount = 0, memPtr = 200, isArray = False, arraySize = 0\<rparr>])"
  by (simp add: Pointer_ctor_def init_state_def PtrDetails_ctor_def assign_ptr_def
      refCount_at_def)

subsection \<open>Default construction\<close>

text \<open>
  C3. \<open>Pointer()\<close> leaves the object it constructs as its storage was: here with
  address 42 and the array flag set. Its temporary has come and gone, and the registry
  holds no entry for the new handle.
\<close>

theorem default_construction_leaves_garbage:
  "\<exists>s. Pointer_default 0 i \<lparr>addr = 42, ptr_isArray = True, ptr_arraySize = 9\<rparr> 1 0 init_state
          = Inr s
      \<and> map_of (objs s) 0 = Some \<lparr>addr = 42, ptr_isArray = True, ptr_arraySize = 9\<rparr>
      \<and> map_of (objs s) 1 = None
      \<and> refContainer s = []"
  by (simp add: Pointer_default_def Pointer_ctor_def init_state_def PtrDetails_ctor_def
      Pointer_dtor_def refCount_at_def collect_def collect_loop.simps
      list_remove_def PtrDetails_eq_def nullptr_def)

subsection \<open>The entry for a newly assigned address\<close>

text \<open>
  C4. Assigning an unregistered address appends the entry the \<open>PtrDetails\<close>
  constructor builds: its count is one more than an indeterminate value, and its array
  flag is set exactly when the length is zero, the opposite of what \<open>Pointer(T* t)\<close>
  stores. Shown for a scalar handle (\<open>size = 0\<close>) and for an array handle of length 5.
\<close>

theorem assigned_fresh_address_entry:
  "(\<exists>s. assign_ptr 0 i 0 200 (Pointer_ctor 0 j 0 100 init_state) = Inr (200, s)
        \<and> last (refContainer s) = \<lparr>refCount = i + 1, memPtr = 200, isArray = True, arraySize = 0\<rparr>)
   \<and> (\<exists>s. assign_ptr 5 i 0 200 (Pointer_ctor 5 j 0 100 init_state) = Inr (200, s)
        \<and> last (refContainer s) = \<lparr>refCount = i + 1, memPtr = 200, isArray = False, arraySize = 5\<rparr>)
   \<and> last (refContainer (Pointer_ctor 5 j 0 100 init_state))
        = \<lparr>refCount = 1, memPtr = 100, isArray = True, arraySize = 5\<rparr>"
  by (simp add: Pointer_ctor_def init_state_def PtrDetails_ctor_def assign_ptr_def
      refCount_at_def)

subsection \<open>Deallocation\<close>

text \<open>
  C5. An allocation is to be deallocated at most once. Here three handles are
  constructed from the same raw address, the second after the first and the third after
  the first has been destroyed, and the third is destroyed in turn. Each destruction
  brings the count \<open>findPtrInfo\<close> finds for the address to zero, and \<open>collect()\<close>
  deallocates the memory each time: twice in all, while the second handle is alive and
  no entry of the registry stands for it.
\<close>

theorem repeated_construction_deallocates_twice:
  "\<exists>s. run 0 [Construct i 0 100, Construct j 1 100, Destroy 0, Construct k 2 100, Destroy 2]
          init_state = Inr s
      \<and> deleted s = [(100, False), (100, False)]
      \<and> objs s = [(1, \<lparr>addr = 100, ptr_isArray = False, ptr_arraySize = 0\<rparr>)]
      \<and> refContainer s = []"
  by (simp add: Pointer_ctor_def init_state_def PtrDetails_ctor_def Pointer_dtor_def
      refCount_at_def collect_def collect_loop.simps list_remove_def PtrDetails_eq_def
      nullptr_def)

subsection \<open>Reclamation at exit\<close>

text \<open>
  C6. \<open>shutdown()\<close> amounts to setting every reference count of the registry to zero
  and calling \<open>collect()\<close>, and it leaves the registry empty whatever the counts were:
  \<open>refContainerSize()\<close> is 0 afterwards. The early return of \<open>shutdown\<close> tests the
  size as an \<open>int\<close>, which is the length of the list for fewer than \<open>2 ^ 31\<close> elements.
\<close>

theorem shutdown_empties_registry:
  "refContainerSize (shutdown s) = 0 \<and>
   (length (refContainer s) < 2 ^ 31 \<longrightarrow>
      shutdown s = snd (collect (s\<lparr>refContainer := map (\<lambda>d. d\<lparr>refCount := 0\<rparr>) (refContainer s)\<rparr>))
      \<and> refContainer (shutdown s) = [])"
proof -
  let ?z = "s\<lparr>refContainer := map (\<lambda>d. d\<lparr>refCount := 0\<rparr>) (refContainer s)\<rparr>"
  have z: "refContainer (snd (collect ?z)) = []"
    by (rule collect_all_zero) simp
  have size0: "refContainerSize (shutdown s) = 0"
  proof (cases "refContainerSize s = 0")
    case True
    then show ?thesis by (simp add: shutdown_def)
  next
    case False
    with z show ?thesis by (simp add: shutdown_def refContainerSize_def)
  qed
  have bounded: "shutdown s = snd (collect ?z) \<and> refContainer (shutdown s) = []"
    if b: "length (refContainer s) < 2 ^ 31"
  proof (cases "refContainer s = []")
    case True
    then have zs: "?z = s" by simp
    have cs: "collect s = (False, s)"
      using True by (simp add: collect_def collect_loop_no_garbage)
    have ss: "shutdown s = s"
      using True by (simp add: shutdown_def refContainerSize_def)
    show ?thesis unfolding zs ss cs using True by simp
  next
    case False
    with refContainerSize_exact [OF b] have "refContainerSize s \<noteq> 0" by simp
    with z show ?thesis by (simp add: shutdown_def)
  qed
  from size0 bounded show ?thesis by blast
qed

theorem shutdown_empties_registry_witness:
  "refContainerSize (shutdown (Pointer_ctor 3 7 1 200 (Pointer_ctor 0 7 0 100 init_state))) = 0
   \<and> map refCount (refContainer (Pointer_ctor 3 7 1 200 (Pointer_ctor 0 7 0 100 init_state))) = [1, 1]
   \<and> refContainer (shutdown (Pointer_ctor 3 7 1 200 (Pointer_ctor 0 7 0 100 init_state))) = []"
proof -
  let ?S = "Pointer_ctor 3 7 1 200 (Pointer_ctor 0 7 0 100 init_state)"
  have b: "length (refContainer ?S) < 2 ^ 31"
    by (simp add: Pointer_ctor_def init_state_def)
  from shutdown_empties_registry [of ?S] b
  have "refContainerSize (shutdown ?S) = 0 \<and> refContainer (shutdown ?S) = []"
    by blast
  moreover have "map refCount (refContainer ?S) = [1, 1]"
    by (simp add: Pointer_ctor_def init_state_def PtrDetails_ctor_def)
  ultimately show ?thesis by blast
qed

subsection \<open>Reassignment does not collect\<close>

text \<open>
  C7. Neither assignment operator calls \<open>collect()\<close>. Whenever \<open>operator=(T* t)\<close> or
  \<open>operator=(Pointer &rv)\<close> returns, nothing has been deallocated, and the entry
  \<open>findPtrInfo\<close> gave for the handle's old address is still found at the same
  position; its count is one less when the new address differs from the old one. If
  that count is now zero, the entry stays until \<open>collect()\<close> runs: the next call of
  \<open>collect()\<close> returns true, removes the entry and deallocates the memory.
\<close>

theorem assignment_defers_reclamation:
  "(assign_ptr tsize indet this t s = Inr (r, s') \<longrightarrow>
      deleted s' = deleted s
      \<and> (\<exists>ob p. map_of (objs s) this = Some ob
            \<and> findPtrInfo (addr ob) (refContainer s) = Some p
            \<and> findPtrInfo (addr ob) (refContainer s') = Some p
            \<and> (t \<noteq> addr ob \<longrightarrow>
                  refCount (refContainer s' ! p) = refCount (refContainer s ! p) - 1)
            \<and> (refCount (refContainer s' ! p) = 0 \<longrightarrow>
                  fst (collect s')
                  \<and> findPtrInfo (addr ob) (refContainer (snd (collect s'))) = None
                  \<and> (addr ob \<noteq> nullptr \<longrightarrow>
                        addr ob \<in> fst ` set (deleted (snd (collect s')))))))
   \<and> (assign_Pointer this rv s = Inr (r', s'') \<longrightarrow>
      deleted s'' = deleted s
      \<and> (\<exists>ob rvo p. map_of (objs s) this = Some ob \<and> map_of (objs s) rv = Some rvo
            \<and> findPtrInfo (addr ob) (refContainer s) = Some p
            \<and> findPtrInfo (addr ob) (refContainer s'') = Some p
            \<and> (addr rvo \<noteq> addr ob \<longrightarrow>
                  refCount (refContainer s'' ! p) = refCount (refContainer s ! p) - 1)
            \<and> (refCount (refContainer s'' ! p) = 0 \<longrightarrow>
                  fst (collect s'')
                  \<and> findPtrInfo (addr ob) (refContainer (snd (collect s''))) = None
                  \<and> (addr ob \<noteq> nullptr \<longrightarrow>
                        addr ob \<in> fst ` set (deleted (snd (collect s'')))))))"
  (is "(?a1 \<longrightarrow> ?d1 \<and> ?e1) \<and> (?a2 \<longrightarrow> ?d2 \<and> ?e2)")
proof (intro conjI impI)
  assume a: "assign_ptr tsize indet this t s = Inr (r, s')"
  from assign_ptr_keeps_old_entry [OF a] show "deleted s' = deleted s" by simp
  from assign_ptr_keeps_old_entry [OF a] obtain ob p where
    k: "map_of (objs s) this = Some ob"
       "findPtrInfo (addr ob) (refContainer s) = Some p"
       "findPtrInfo (addr ob) (refContainer s') = Some p"
       "t \<noteq> addr ob \<longrightarrow> refCount (refContainer s' ! p) = refCount (refContainer s ! p) - 1"
    by blast
  from findPtrInfo_Some [OF k(3)]
  have m: "refContainer s' ! p \<in> set (refContainer s')" "memPtr (refContainer s' ! p) = addr ob"
    by simp_all
  have "refCount (refContainer s' ! p) = 0 \<longrightarrow>
          fst (collect s')
          \<and> findPtrInfo (addr ob) (refContainer (snd (collect s'))) = None
          \<and> (addr ob \<noteq> nullptr \<longrightarrow> addr ob \<in> fst ` set (deleted (snd (collect s'))))"
    using collect_reclaims [OF m(1)] m(2) by simp
  with k show ?e1 by blast
next
  assume a: "assign_Pointer this rv s = Inr (r', s'')"
  from assign_Pointer_keeps_old_entry [OF a] show "deleted s'' = deleted s" by simp
  from assign_Pointer_keeps_old_entry [OF a] obtain ob rvo p where
    k: "map_of (objs s) this = Some ob" "map_of (objs s) rv = Some rvo"
       "findPtrInfo (addr ob) (refContainer s) = Some p"
       "findPtrInfo (addr ob) (refContainer s'') = Some p"
       "addr rvo \<noteq> addr ob \<longrightarrow>
          refCount (refContainer s'' ! p) = refCount (refContainer s ! p) - 1"
    by blast
  from findPtrInfo_Some [OF k(4)]
  have m: "refContainer s'' ! p \<in> set (refContainer s'')"
          "memPtr (refContainer s'' ! p) = addr ob"
    by simp_all
  have "refCount (refContainer s'' ! p) = 0 \<longrightarrow>
          fst (collect s'')
          \<and> findPtrInfo (addr ob) (refContainer (snd (collect s''))) = None
          \<and> (addr ob \<noteq> nullptr \<longrightarrow> addr ob \<in> fst ` set (deleted (snd (collect s''))))"
    using collect_reclaims [OF m(1)] m(2) by simp
  with k show ?e2 by blast
qed

theorem assignment_defers_reclamation_witness:
  "(\<exists>r s'. assign_ptr 0 0 0 200 (Pointer_ctor 0 7 0 100 init_state) = Inr (r, s')
        \<and> deleted s' = []
        \<and> findPtrInfo 100 (refContainer s') = Some 0
        \<and> refCount (refContainer s' ! 0) = 0
        \<and> fst (collect s')
        \<and> 100 \<in> fst ` set (deleted (snd (collect s'))))
   \<and> (\<exists>r s'. assign_Pointer 0 1 (Pointer_ctor 0 7 1 200 (Pointer_ctor 0 7 0 100 init_state))
                = Inr (r, s')
        \<and> deleted s' = []
        \<and> findPtrInfo 100 (refContainer s') = Some 0
        \<and> refCount (refContainer s' ! 0) = 0
        \<and> fst (collect s'))"
proof -
  let ?S = "Pointer_ctor 0 7 0 100 init_state"
  let ?T = "Pointer_ctor 0 7 1 200 (Pointer_ctor 0 7 0 100 init_state)"
  have S: "deleted ?S = []"
    "map_of (objs ?S) 0 = Some \<lparr>addr = 100, ptr_isArray = False, ptr_arraySize = 0\<rparr>"
    "findPtrInfo 100 (refContainer ?S) = Some 0" "refCount (refContainer ?S ! 0) = 1"
    by (simp_all add: Pointer_ctor_def init_state_def PtrDetails_ctor_def)
  have T: "deleted ?T = []"
    "map_of (objs ?T) 0 = Some \<lparr>addr = 100, ptr_isArray = False, ptr_arraySize = 0\<rparr>"
    "map_of (objs ?T) 1 = Some \<lparr>addr = 200, ptr_isArray = False, ptr_arraySize = 0\<rparr>"
    "findPtrInfo 100 (refContainer ?T) = Some 0" "refCount (refContainer ?T ! 0) = 1"
    by (simp_all add: Pointer_ctor_def init_state_def PtrDetails_ctor_def)
  obtain r s' where a: "assign_ptr 0 0 0 200 ?S = Inr (r, s')"
    by (simp add: assign_ptr_def Pointer_ctor_def init_state_def PtrDetails_ctor_def
        refCount_at_def)
  obtain r' s'' where b: "assign_Pointer 0 1 ?T = Inr (r', s'')"
    by (simp add: assign_Pointer_def Pointer_ctor_def init_state_def PtrDetails_ctor_def
        refCount_at_def)
  from assignment_defers_reclamation [of 0 0 0 200 ?S r s' 1 r' s''] a S
  have 1: "deleted s' = [] \<and> findPtrInfo 100 (refContainer s') = Some 0
        \<and> refCount (refContainer s' ! 0) = 0 \<and> fst (collect s')
        \<and> 100 \<in> fst ` set (deleted (snd (collect s')))"
    by (auto simp: nullptr_def)
  from assignment_defers_reclamation [of 0 0 0 200 ?T r s' 1 r' s''] b T
  have 2: "deleted s'' = [] \<and> findPtrInfo 100 (refContainer s'') = Some 0
        \<and> refCount (refContainer s'' ! 0) = 0 \<and> fst (collect s'')"
    by (auto simp: nullptr_def)
  from a b 1 2 show ?thesis by blast
qed

subsection \<open>Collecting without garbage\<close>

text \<open>
  C8. \<open>collect()\<close> has no error result: it is a total function into \<open>bool \<times> state\<close>,
  and it returns true exactly when some element of the registry has reference count
  zero. In a state whose registry has no such element it returns false and changes
  nothing, and so does every further call.
\<close>

theorem collect_idempotent_without_garbage:
  "(fst (collect s) \<longleftrightarrow> (\<exists>d\<in>set (refContainer s). refCount d = 0))
   \<and> ((\<forall>d\<in>set (refContainer s). refCount d \<noteq> 0) \<longrightarrow>
         collect s = (False, s) \<and> collect (snd (collect s)) = (False, s))"
proof -
  obtain b' s' where c: "collect_loop False s = (b', s')" by (cases "collect_loop False s")
  from collect_loop_flag [OF c] c
  have "fst (collect s) \<longleftrightarrow> (\<exists>d\<in>set (refContainer s). refCount d = 0)"
    by (simp add: collect_def)
  moreover have "collect s = (False, s) \<and> collect (snd (collect s)) = (False, s)"
    if "\<forall>d\<in>set (refContainer s). refCount d \<noteq> 0"
    using that by (simp add: collect_def collect_loop_no_garbage)
  ultimately show ?thesis by blast
qed

theorem collect_idempotent_without_garbage_witness:
  "map refCount (refContainer (Pointer_ctor 0 7 0 100 init_state)) = [1]
   \<and> collect (Pointer_ctor 0 7 0 100 init_state) = (False, Pointer_ctor 0 7 0 100 init_state)
   \<and> collect (snd (collect (Pointer_ctor 0 7 0 100 init_state)))
       = (False, Pointer_ctor 0 7 0 100 init_state)"
proof -
  let ?S = "Pointer_ctor 0 7 0 100 init_state"
  have h: "\<forall>d\<in>set (refContainer ?S). refCount d \<noteq> 0"
    by (simp add: Pointer_ctor_def init_state_def PtrDetails_ctor_def)
  from collect_idempotent_without_garbage [of ?S] h
  have "collect ?S = (False, ?S) \<and> collect (snd (collect ?S)) = (False, ?S)"
    by blast
  moreover have "map refCount (refContainer ?S) = [1]"
    by (simp add: Pointer_ctor_def init_state_def PtrDetails_ctor_def)
  ultimately show ?thesis by blast
qed

subsection \<open>Iteration bounds\<close>

text \<open>
  C9. The range from \<open>begin()\<close> to \<open>end()\<close> is to span \<open>N\<close> elements for every handle of
  \<open>Pointer<T, N>\<close>. \<open>begin()\<close> and \<open>end()\<close> read the members \<open>isArray\<close> and
  \<open>arraySize\<close>, which \<open>Pointer()\<close> never assigns. A default-constructed handle of
  \<open>Pointer<T, 5>\<close> whose storage held a clear array flag spans no element, and a
  default-constructed handle of \<open>Pointer<T, 0>\<close> whose storage held a set array flag
  and the size 9 spans nine elements, so that \<open>begin()\<close> differs from \<open>end()\<close>.
\<close>

theorem default_handle_iteration_span:
  "(\<exists>s h. Pointer_default 5 i \<lparr>addr = 42, ptr_isArray = False, ptr_arraySize = 9\<rparr> 1 0
             init_state = Inr s
        \<and> map_of (objs s) 0 = Some h
        \<and> Pointer_begin h = Iter_ctor 42 42 42 \<and> Pointer_end h = Iter_ctor 42 42 42
        \<and> current (Pointer_end h) - current (Pointer_begin h) = 0)
   \<and> (\<exists>s h. Pointer_default 0 i \<lparr>addr = 42, ptr_isArray = True, ptr_arraySize = 9\<rparr> 1 0
             init_state = Inr s
        \<and> map_of (objs s) 0 = Some h
        \<and> Pointer_begin h = Iter_ctor 42 42 51 \<and> Pointer_end h = Iter_ctor 51 42 51
        \<and> current (Pointer_end h) - current (Pointer_begin h) = 9)"
  by (simp add: Pointer_default_def Pointer_ctor_def init_state_def PtrDetails_ctor_def
      Pointer_dtor_def refCount_at_def collect_def collect_loop.simps
      list_remove_def PtrDetails_eq_def nullptr_def Pointer_begin_def Pointer_end_def
      Iter_ctor_def)

subsection \<open>The result of assigning a handle\<close>

text \<open>
  C10. \<open>operator=(Pointer &rv)\<close> returns a reference to its argument \<open>rv\<close>, which is
  not the assigned-to object unless the two are the same object; the assigned-to object
  has the argument's address afterwards.
\<close>

theorem assign_Pointer_returns_rhs:
  assumes "assign_Pointer this rv s = Inr (r, s')"
  shows "r = rv \<and> (this \<noteq> rv \<longrightarrow> r \<noteq> this)
         \<and> (\<exists>lhs rhs. map_of (objs s') this = Some lhs \<and> map_of (objs s) rv = Some rhs
                \<and> addr lhs = addr rhs)"
  using assms
  by (auto simp: assign_Pointer_def Let_def update_conv' split: option.splits)

theorem assign_Pointer_returns_rhs_witness:
  "\<exists>s'. assign_Pointer 0 1 (Pointer_ctor 0 7 1 200 (Pointer_ctor 0 7 0 100 init_state)) = Inr (1, s')
        \<and> map_option addr (map_of (objs s') 0) = Some 200"
proof -
  let ?S = "Pointer_ctor 0 7 1 200 (Pointer_ctor 0 7 0 100 init_state)"
  obtain r s' where a: "assign_Pointer 0 1 ?S = Inr (r, s')"
    by (simp add: assign_Pointer_def Pointer_ctor_def init_state_def PtrDetails_ctor_def
        refCount_at_def)
  have "map_of (objs ?S) 1 = Some \<lparr>addr = 200, ptr_isArray = False, ptr_arraySize = 0\<rparr>"
    by (simp add: Pointer_ctor_def init_state_def)
  with assign_Pointer_returns_rhs [OF a] a show ?thesis by auto
qed

end
